theory Spec2Isabelle
  imports Complex_Main "HOL-Library.Char_ord" "HOL-Library.List_Lexorder" "HOL-Library.Multiset"
begin

section \<open>Preprocessing: tokenizer and vocabulary\<close>

text \<open>
  The notebook prepares its corpus in two lines:
  \<^verbatim>\<open>
  tokenized = re.sub('[,?.]','', text).lower().split(' ')
  vocab = {k:v for v,k in enumerate(np.unique(tokenized))}
  \<close>
  A Python string is modelled as a \<open>string\<close>, one \<open>char\<close> per character. A
  \<open>char\<close> has a code below 256, so the model covers the texts whose characters have
  code points below 256, the corpus of the notebook among them.
\<close>

subsection \<open>\<open>re.sub('[,?.]', '', text)\<close>\<close>

text \<open>
  Inside a character class \<open>?\<close> and \<open>.\<close> stand for themselves, so the pattern matches
  exactly one of the three characters below, and every match is replaced by the empty
  string.
\<close>

definition punctuation :: "char set" where
  "punctuation = {CHR '','', CHR ''?'', CHR ''.''}"

definition re_sub :: "string \<Rightarrow> string" where
  "re_sub s = filter (\<lambda>c. c \<notin> punctuation) s"

subsection \<open>\<open>str.lower\<close>\<close>

text \<open>
  Below code point 256 the characters that \<open>str.lower\<close> changes are the letters
  \<open>A\<close> to \<open>Z\<close> and the capital letters U+00C0 to U+00DE without the multiplication
  sign U+00D7; each becomes the character 32 code points above it. Every other character
  is kept.
\<close>

definition ascii_uppercase :: string where
  "ascii_uppercase = ''ABCDEFGHIJKLMNOPQRSTUVWXYZ''"

definition ascii_lowercase :: string where
  "ascii_lowercase = ''abcdefghijklmnopqrstuvwxyz''"

definition latin1_uppercase :: string where
  "latin1_uppercase =
     [CHR 0xC0, CHR 0xC1, CHR 0xC2, CHR 0xC3, CHR 0xC4, CHR 0xC5,
      CHR 0xC6, CHR 0xC7, CHR 0xC8, CHR 0xC9, CHR 0xCA, CHR 0xCB,
      CHR 0xCC, CHR 0xCD, CHR 0xCE, CHR 0xCF, CHR 0xD0, CHR 0xD1,
      CHR 0xD2, CHR 0xD3, CHR 0xD4, CHR 0xD5, CHR 0xD6, CHR 0xD8,
      CHR 0xD9, CHR 0xDA, CHR 0xDB, CHR 0xDC, CHR 0xDD, CHR 0xDE]"

definition latin1_lowercase :: string where
  "latin1_lowercase =
     [CHR 0xE0, CHR 0xE1, CHR 0xE2, CHR 0xE3, CHR 0xE4, CHR 0xE5,
      CHR 0xE6, CHR 0xE7, CHR 0xE8, CHR 0xE9, CHR 0xEA, CHR 0xEB,
      CHR 0xEC, CHR 0xED, CHR 0xEE, CHR 0xEF, CHR 0xF0, CHR 0xF1,
      CHR 0xF2, CHR 0xF3, CHR 0xF4, CHR 0xF5, CHR 0xF6, CHR 0xF8,
      CHR 0xF9, CHR 0xFA, CHR 0xFB, CHR 0xFC, CHR 0xFD, CHR 0xFE]"

definition lower_char :: "char \<Rightarrow> char" where
  "lower_char c =
     (case map_of (zip (ascii_uppercase @ latin1_uppercase)
                       (ascii_lowercase @ latin1_lowercase)) c of
        Some l \<Rightarrow> l
      | None \<Rightarrow> c)"

definition lower :: "string \<Rightarrow> string" where
  "lower s = map lower_char s"

subsection \<open>\<open>str.split(sep)\<close> with a one-character separator\<close>

text \<open>
  The string is scanned from the left; \<open>cur\<close> is the piece read since the last
  separator. Every separator closes the current piece, also an empty one, and the piece
  that is open at the end of the string is always returned: the result is never the empty
  list.
\<close>

fun split_from :: "char \<Rightarrow> string \<Rightarrow> string \<Rightarrow> string list" where
  "split_from sep cur [] = [cur]"
| "split_from sep cur (c # cs) =
     (if c = sep then cur # split_from sep [] cs else split_from sep (cur @ [c]) cs)"

definition split_on :: "char \<Rightarrow> string \<Rightarrow> string list" where
  "split_on sep s = split_from sep [] s"


subsection \<open>The tokenizer\<close>

definition tokenize :: "string \<Rightarrow> string list" where
  "tokenize s = split_on CHR '' '' (lower (re_sub s))"

subsection \<open>\<open>np.unique\<close> and the vocabulary\<close>

text \<open>
  \<open>np.unique\<close> first makes an array of the list. An array of strings has cells of one
  width, shorter strings are padded with NUL characters, and a cell reads back without
  its trailing NUL characters: a token that ends in NUL characters loses them, and is then
  equal to the token without them. \<open>np_str\<close> is a token as the array gives it back.
\<close>

definition NUL :: char where
  "NUL = CHR 0x00"

definition np_str :: "string \<Rightarrow> string" where
  "np_str s = rev (dropWhile (\<lambda>c. c = NUL) (rev s))"

text \<open>
  The array is then sorted and the first element of every run of equal elements is kept.
  Strings are compared character by character, a proper prefix before its extensions,
  which is the order of \<open>List_Lexorder\<close> over \<open>Char_ord\<close>.
\<close>

definition unique :: "string list \<Rightarrow> string list" where
  "unique xs = remdups_adj (sort (map np_str xs))"

text \<open>
  The dict comprehension stores \<open>k \<mapsto> v\<close> for each pair \<open>(v, k)\<close> that
  \<open>enumerate\<close> yields, in that order; a later pair with the same key would overwrite an
  earlier one.
\<close>

definition vocab_of :: "string list \<Rightarrow> (string \<rightharpoonup> nat)" where
  "vocab_of toks = foldl (\<lambda>m (v, k). m(k \<mapsto> v)) Map.empty (enumerate 0 (unique toks))"

subsection \<open>The module-level values of the notebook\<close>

definition corpus_text :: string where
  "corpus_text = ''Quo usque tandem abutere, Catilina, patientia nostra? Quamdiu etiam furor iste tuus nos eludet? Quem ad finem sese effrenata iactabit audacia?''"

definition tokenized :: "string list" where
  "tokenized = tokenize corpus_text"

definition vocab :: "string \<rightharpoonup> nat" where
  "vocab = vocab_of tokenized"

definition EMBED_SIZE :: int where
  "EMBED_SIZE = 50"

definition VOCAB_LEN :: int where
  "VOCAB_LEN = int (card (dom vocab))"

section \<open>Embedding table and lookup\<close>

text \<open>
  The error kinds of the design. \<open>TokenNotFound\<close> is what a subscript of the vocabulary
  with an absent key raises.
\<close>

datatype error = InvalidDimension | TokenNotFound | IndexOutOfRange | UnsupportedOperation

definition getitem :: "('k \<rightharpoonup> 'v) \<Rightarrow> 'k \<Rightarrow> error + 'v" where
  "getitem d k = (case d k of None \<Rightarrow> Inl TokenNotFound | Some v \<Rightarrow> Inr v)"

text \<open>
  \<^verbatim>\<open>words_ids = tf.constant([vocab["abutere"], vocab["patientia"]])\<close>
\<close>

definition words_ids_of :: "(string \<rightharpoonup> nat) \<Rightarrow> error + int list" where
  "words_ids_of d =
     (case getitem d ''abutere'' of
        Inl e \<Rightarrow> Inl e
      | Inr a \<Rightarrow>
          (case getitem d ''patientia'' of
             Inl e \<Rightarrow> Inl e
           | Inr p \<Rightarrow> Inr [int a, int p]))"

type_synonym 'a table = "'a list list"

text \<open>
  Modelled from the spec: \<open>tf.Variable(tf.random_uniform([V, D]))\<close> is a call into the
  tensor framework, whose code is not among the sources. The design describes it as the
  construction of the Embedding Table: given the vocabulary size \<open>V\<close> and the embedding
  dimension \<open>D\<close> it allocates a \<open>V\<close> by \<open>D\<close> matrix and fills it according to the
  initialization policy. The random draws are a parameter: \<open>U i j\<close> is the value drawn
  for column \<open>j\<close> of row \<open>i\<close>. The failure of the construction is that of the
  framework, which is narrower than the design's: a shape with a negative extent is
  rejected (\<open>InvalidDimension\<close>), a shape with an extent of 0 is a shape like any other
  and gives a table with no rows, or with empty rows.
\<close>

definition random_uniform :: "(nat \<Rightarrow> nat \<Rightarrow> 'a) \<Rightarrow> int \<Rightarrow> int \<Rightarrow> error + 'a table" where
  "random_uniform U V D =
     (if V < 0 \<or> D < 0 then Inl InvalidDimension
      else Inr (map (\<lambda>i. map (U i) [0..<nat D]) [0..<nat V]))"

text \<open>
  Modelled from the spec: the operation \<open>row(id)\<close> of the Embedding Table, which the
  notebook leaves to the framework. Its constraint is \<open>0 \<le> id < V\<close>, where \<open>V\<close> is the
  number of rows; otherwise it fails with an out-of-range error.
\<close>

definition row :: "'a table \<Rightarrow> int \<Rightarrow> error + 'a list" where
  "row t i = (if 0 \<le> i \<and> i < int (length t) then Inr (t ! nat i) else Inl IndexOutOfRange)"

text \<open>
  Modelled from the spec: \<open>tf.nn.embedding_lookup(params, ids)\<close>, of which the notebook
  says that it ``retrieves the rows of the first parameters based on the index of the
  second''. The design's Lookup Operation returns the rows of the ids in the order of the
  ids, and fails with the error of \<open>row\<close> as soon as an id is not valid for the table.
\<close>

fun embedding_lookup :: "'a table \<Rightarrow> int list \<Rightarrow> error + 'a table" where
  "embedding_lookup t [] = Inr []"
| "embedding_lookup t (i # ids) =
     (case row t i of
        Inl e \<Rightarrow> Inl e
      | Inr r \<Rightarrow>
          (case embedding_lookup t ids of
             Inl e \<Rightarrow> Inl e
           | Inr rs \<Rightarrow> Inr (r # rs)))"

section \<open>The custom module\<close>

text \<open>
  \<^verbatim>\<open>
  class Embedding():
      def __init__(self, vocab_size, emd_dim=50):
          self.vocab_size = vocab_size
          self.emd_dim = emd_dim
          self.embeddings = tf.Variable(tf.random_uniform([self.vocab_size, self.emd_dim]))

      def __call__(self, words_id):
          return tf.nn.embedding_lookup(self.embeddings, words_ids)
  \<close>
  The body of \<open>__call__\<close> reads \<open>words_ids\<close>, a name of the module, and not its
  parameter \<open>words_id\<close>. The names of the module that the class and the cell using it
  read or write are the fields of a record: \<open>embeddings_g\<close> is the module's name
  \<open>embeddings\<close>, which at that cell is bound to the layer object of the Keras cell, a
  callable from ids to rows.
\<close>

record 'a Embedding =
  vocab_size :: int
  emd_dim :: int
  embeddings :: "'a table"

record 'a module =
  words_ids :: "int list"
  embeddings_g :: "int list \<Rightarrow> error + 'a table"
  embedding :: "'a Embedding option"
  embed :: "error + 'a table"

definition Embedding_init :: "(nat \<Rightarrow> nat \<Rightarrow> 'a) \<Rightarrow> int \<Rightarrow> int \<Rightarrow> error + 'a Embedding" where
  "Embedding_init U V D =
     (case random_uniform U V D of
        Inl e \<Rightarrow> Inl e
      | Inr t \<Rightarrow> Inr \<lparr>vocab_size = V, emd_dim = D, embeddings = t\<rparr>)"

definition Embedding_call :: "'a module \<Rightarrow> 'a Embedding \<Rightarrow> int list \<Rightarrow> error + 'a table" where
  "Embedding_call m self words_id = embedding_lookup (embeddings self) (words_ids m)"

text \<open>
  The cell that uses the class, with the two arguments of the constructor made
  parameters (the notebook passes \<open>VOCAB_LEN\<close> and \<open>EMBED_SIZE\<close>):
  \<^verbatim>\<open>
  embedding = Embedding(V, D)
  embed = embeddings(words_ids)
  with tf.Session() as sess:
      sess.run(tf.global_variables_initializer())
      print(sess.run(embed))
  \<close>
  \<open>demo_cell\<close> is the module after the two assignments, or the error the constructor
  raised; \<open>demo_output\<close> is what the cell prints, or the error that ended it before it
  printed.
\<close>

definition demo_cell :: "(nat \<Rightarrow> nat \<Rightarrow> 'a) \<Rightarrow> int \<Rightarrow> int \<Rightarrow> 'a module \<Rightarrow> error + 'a module" where
  "demo_cell U V D m =
     (case Embedding_init U V D of
        Inl e \<Rightarrow> Inl e
      | Inr inst \<Rightarrow> Inr (m\<lparr>embedding := Some inst, embed := embeddings_g m (words_ids m)\<rparr>))"

definition demo_output :: "(nat \<Rightarrow> nat \<Rightarrow> 'a) \<Rightarrow> int \<Rightarrow> int \<Rightarrow> 'a module \<Rightarrow> error + 'a table" where
  "demo_output U V D m = (case demo_cell U V D m of Inl e \<Rightarrow> Inl e | Inr m' \<Rightarrow> embed m')"

section \<open>The tokenizer: what splitting keeps\<close>

























text \<open>
  Claim C6, as amended. Applied to the empty string the tokenizer returns a sequence of
  one token, the empty string: \<open>''.split(' ')\<close> is \<open>['']\<close>, and not the empty
  sequence.
\<close>

theorem tokenize_empty_string: "tokenize [] = [[]]"
  by (simp add: tokenize_def split_on_def lower_def re_sub_def)

theorem tokenize_empty_string_not_empty: "tokenize [] \<noteq> []"
  by (simp add: tokenize_def split_on_def lower_def re_sub_def)

section \<open>The vocabulary\<close>

lemma distinct_remdups_adj_sorted: "sorted xs \<Longrightarrow> distinct (remdups_adj xs)"
  by (induction xs rule: remdups_adj.induct) (auto simp: less_le)

lemma np_str_id: "t = [] \<or> last t \<noteq> NUL \<Longrightarrow> np_str t = t"
proof (cases t rule: rev_cases)
  case Nil
  then show ?thesis by (simp add: np_str_def)
next
  case (snoc ys y)
  assume "t = [] \<or> last t \<noteq> NUL"
  with snoc show ?thesis by (simp add: np_str_def)
qed

lemma map_np_str_id: "\<forall>t \<in> set toks. t = [] \<or> last t \<noteq> NUL \<Longrightarrow> map np_str toks = toks"
  by (induction toks) (simp_all add: np_str_id)

lemma distinct_unique: "distinct (unique toks)"
  by (simp add: unique_def distinct_remdups_adj_sorted)

lemma sorted_unique: "sorted (unique toks)"
  by (simp add: unique_def)

lemma set_unique: "set (unique toks) = np_str ` set toks"
  by (simp add: unique_def)

lemma unique_sorted_list: "unique xs = sorted_list_of_set (np_str ` set xs)"
proof -
  have "sorted_list_of_set (set (unique xs)) = unique xs"
    using sorted_unique distinct_unique by (rule sorted_list_of_set.idem_if_sorted_distinct)
  then show ?thesis
    by (simp only: set_unique)
qed

lemma length_unique: "length (unique toks) = card (np_str ` set toks)"
  by (simp add: unique_sorted_list)

lemma foldl_enumerate_other:
  "k \<notin> set us \<Longrightarrow> foldl (\<lambda>m (v, k). m(k \<mapsto> v)) m (enumerate n us) k = m k"
  by (induction us arbitrary: m n) auto

lemma foldl_enumerate_nth:
  "distinct us \<Longrightarrow> i < length us \<Longrightarrow>
     foldl (\<lambda>m (v, k). m(k \<mapsto> v)) m (enumerate n us) (us ! i) = Some (n + i)"
proof (induction us arbitrary: m n i)
  case Nil
  then show ?case by simp
next
  case (Cons u us)
  show ?case
  proof (cases i)
    case 0
    then show ?thesis
      using Cons.prems foldl_enumerate_other [of u us "m(u \<mapsto> n)" "Suc n"]
      by (simp del: fun_upd_apply) simp
  next
    case (Suc j)
    then show ?thesis
      using Cons.prems Cons.IH [of j "m(u \<mapsto> n)" "Suc n"] by simp
  qed
qed

lemma dom_foldl_enumerate:
  "dom (foldl (\<lambda>m (v, k). m(k \<mapsto> v)) m (enumerate n us)) = dom m \<union> set us"
  by (induction us arbitrary: m n) auto

lemma vocab_of_nth:
  "i < length (unique toks) \<Longrightarrow> vocab_of toks (unique toks ! i) = Some i"
  using foldl_enumerate_nth [of "unique toks" i Map.empty 0]
  by (simp add: vocab_of_def distinct_unique)

lemma dom_vocab_of: "dom (vocab_of toks) = np_str ` set toks"
  by (simp add: vocab_of_def dom_foldl_enumerate set_unique)

lemma ran_vocab_of: "ran (vocab_of toks) = {0..<length (unique toks)}"
proof (rule set_eqI)
  fix v
  show "v \<in> ran (vocab_of toks) \<longleftrightarrow> v \<in> {0..<length (unique toks)}"
  proof
    assume "v \<in> ran (vocab_of toks)"
    then obtain k where k: "vocab_of toks k = Some v"
      by (auto simp: ran_def)
    then have "k \<in> dom (vocab_of toks)"
      by auto
    then have "k \<in> set (unique toks)"
      by (simp only: dom_vocab_of set_unique)
    then obtain i where i: "i < length (unique toks)" "unique toks ! i = k"
      by (auto simp: in_set_conv_nth)
    with k vocab_of_nth [of i toks] show "v \<in> {0..<length (unique toks)}"
      by simp
  next
    assume "v \<in> {0..<length (unique toks)}"
    then have "vocab_of toks (unique toks ! v) = Some v"
      by (simp add: vocab_of_nth)
    then show "v \<in> ran (vocab_of toks)"
      by (auto simp: ran_def)
  qed
qed

lemma inj_on_vocab_of: "inj_on (vocab_of toks) (np_str ` set toks)"
proof (rule inj_onI)
  fix a b
  assume "a \<in> np_str ` set toks" and "b \<in> np_str ` set toks"
    and eq: "vocab_of toks a = vocab_of toks b"
  then have "a \<in> set (unique toks)" and "b \<in> set (unique toks)"
    by (simp_all only: set_unique)
  then obtain i j where i: "i < length (unique toks)" "unique toks ! i = a"
    and j: "j < length (unique toks)" "unique toks ! j = b"
    by (auto simp: in_set_conv_nth)
  from i j eq vocab_of_nth [of i toks] vocab_of_nth [of j toks] show "a = b"
    by auto
qed

lemma unique_tokenized:
  "unique tokenized =
     [''abutere'', ''ad'', ''audacia'', ''catilina'', ''effrenata'', ''eludet'', ''etiam'',
      ''finem'', ''furor'', ''iactabit'', ''iste'', ''nos'', ''nostra'', ''patientia'',
      ''quamdiu'', ''quem'', ''quo'', ''sese'', ''tandem'', ''tuus'', ''usque'']"
  by code_simp

text \<open>
  The notebook prints \<open>21\<close> for \<open>VOCAB_LEN\<close>, and the ids of \<open>abutere\<close> and
  \<open>patientia\<close> in the vocabulary it prints are 0 and 13.
\<close>

lemma VOCAB_LEN_value: "VOCAB_LEN = 21"
proof -
  have "card (dom vocab) = length (unique tokenized)"
    by (simp only: vocab_def dom_vocab_of length_unique)
  then show ?thesis
    by (simp add: VOCAB_LEN_def unique_tokenized)
qed

lemma words_ids_value: "words_ids_of vocab = Inr [0, 13]"
proof -
  have "vocab (unique tokenized ! 0) = Some 0" and "vocab (unique tokenized ! 13) = Some 13"
    unfolding vocab_def by (rule vocab_of_nth, simp add: unique_tokenized)+
  then show ?thesis
    by (simp add: unique_tokenized words_ids_of_def getitem_def)
qed

text \<open>
  Claim C1. Building the vocabulary from two token sequences with the same multiset of
  tokens gives the same mapping from tokens to ids, whatever the order of the tokens.
\<close>

theorem vocab_of_order_independent: "mset xs = mset ys \<Longrightarrow> vocab_of xs = vocab_of ys"
proof -
  assume "mset xs = mset ys"
  then have "set xs = set ys"
    by (rule mset_eq_setD)
  then have "unique xs = unique ys"
    by (simp add: unique_sorted_list)
  then show ?thesis
    by (simp add: vocab_of_def)
qed

theorem vocab_of_order_independent_witness:
  "mset [''quo'', ''ad'', ''quo'', ''nos''] = mset [''nos'', ''quo'', ''quo'', ''ad'']
   \<and> vocab_of [''quo'', ''ad'', ''quo'', ''nos''] = vocab_of [''nos'', ''quo'', ''quo'', ''ad'']"
proof -
  have h: "mset [''quo'', ''ad'', ''quo'', ''nos''] = mset [''nos'', ''quo'', ''quo'', ''ad'']"
    by (simp add: add_mset_commute)
  show ?thesis
    using h vocab_of_order_independent [OF h] by simp
qed

text \<open>
  Claim C2, as amended. For every token sequence none of whose tokens ends in a NUL
  character, the keys of the vocabulary are the tokens, the ids are exactly
  \<open>0, \<dots>, N - 1\<close> for the number \<open>N\<close> of distinct tokens, no two tokens share an id,
  and the id of a token is its position among the distinct tokens in lexicographic order.
\<close>

theorem vocab_of_ids:
  assumes "\<forall>t \<in> set toks. t = [] \<or> last t \<noteq> CHR 0x00"
  shows "dom (vocab_of toks) = set toks
   \<and> ran (vocab_of toks) = {0..<card (set toks)}
   \<and> inj_on (vocab_of toks) (set toks)
   \<and> (\<forall>i < card (set toks). vocab_of toks (sorted_list_of_set (set toks) ! i) = Some i)"
proof -
  have "map np_str toks = toks"
    using assms by (intro map_np_str_id) (simp add: NUL_def)
  then have "set (map np_str toks) = set toks"
    by simp
  then have k: "np_str ` set toks = set toks"
    by simp
  have "dom (vocab_of toks) = set toks"
    by (simp only: dom_vocab_of k)
  moreover have "ran (vocab_of toks) = {0..<card (set toks)}"
    by (simp only: ran_vocab_of length_unique k)
  moreover have "inj_on (vocab_of toks) (set toks)"
    using inj_on_vocab_of [of toks] by (simp only: k)
  moreover have "\<forall>i < card (set toks). vocab_of toks (sorted_list_of_set (set toks) ! i) = Some i"
  proof (intro allI impI)
    fix i
    assume "i < card (set toks)"
    then have "i < length (unique toks)"
      by (simp only: length_unique k)
    then have "vocab_of toks (unique toks ! i) = Some i"
      by (rule vocab_of_nth)
    then show "vocab_of toks (sorted_list_of_set (set toks) ! i) = Some i"
      by (simp only: unique_sorted_list k)
  qed
  ultimately show ?thesis
    by (intro conjI)
qed

theorem vocab_of_ids_witness:
  "(1::nat) < card (set [''quo'', ''ad'', ''quo''])
   \<and> vocab_of [''quo'', ''ad'', ''quo''] ''ad'' = Some 0
   \<and> vocab_of [''quo'', ''ad'', ''quo''] ''quo'' = Some 1
   \<and> ran (vocab_of [''quo'', ''ad'', ''quo'']) = {0..<2}"
proof -
  have h: "\<forall>t \<in> set [''quo'', ''ad'', ''quo'']. t = [] \<or> last t \<noteq> CHR 0x00"
    by simp
  have u: "unique [''quo'', ''ad'', ''quo''] = [''ad'', ''quo'']"
    by code_simp
  have n: "map np_str [''quo'', ''ad'', ''quo''] = [''quo'', ''ad'', ''quo'']"
    by code_simp
  have "np_str ` set [''quo'', ''ad'', ''quo''] = set (map np_str [''quo'', ''ad'', ''quo''])"
    by simp
  then have k: "np_str ` set [''quo'', ''ad'', ''quo''] = set [''quo'', ''ad'', ''quo'']"
    by (simp only: n)
  have s: "sorted_list_of_set (set [''quo'', ''ad'', ''quo'']) = [''ad'', ''quo'']"
    using unique_sorted_list [of "[''quo'', ''ad'', ''quo'']"] by (simp only: u k)
  have "card (set [''quo'', ''ad'', ''quo'']) = length (unique [''quo'', ''ad'', ''quo''])"
    by (simp only: length_unique k)
  also have "\<dots> = 2"
    by (simp only: u) simp
  finally have c: "card (set [''quo'', ''ad'', ''quo'']) = 2" .
  note v = vocab_of_ids [OF h, unfolded s c]
  have a: "\<forall>i < 2. vocab_of [''quo'', ''ad'', ''quo''] ([''ad'', ''quo''] ! i) = Some i"
    using v by blast
  have r: "ran (vocab_of [''quo'', ''ad'', ''quo'']) = {0..<2}"
    using v by blast
  have h0: "vocab_of [''quo'', ''ad'', ''quo''] ''ad'' = Some 0"
    using a [rule_format, of 0] by simp
  have h1: "vocab_of [''quo'', ''ad'', ''quo''] ''quo'' = Some 1"
    using a [rule_format, of 1] by simp
  have g: "(1::nat) < card (set [''quo'', ''ad'', ''quo''])"
    unfolding c by simp
  show ?thesis
    by (intro conjI) (rule g h0 h1 r)+
qed

text \<open>
  The claim as it was written, for every token sequence, fails where a token ends in a
  NUL character: the tokens \<open>a\<close> followed by NUL and \<open>a\<close> are two distinct tokens,
  and the vocabulary has the one key \<open>a\<close> with the id 0.
\<close>

theorem vocab_of_trailing_NUL:
  "card (set [[CHR ''a'', CHR 0x00], ''a'']) = 2
   \<and> vocab_of [[CHR ''a'', CHR 0x00], ''a''] = [''a'' \<mapsto> 0]"
proof -
  have u: "unique [[CHR ''a'', CHR 0x00], ''a''] = [''a'']"
    by code_simp
  have "vocab_of [[CHR ''a'', CHR 0x00], ''a''] = [''a'' \<mapsto> 0]"
    by (simp add: vocab_of_def u enumerate_eq_zip)
  moreover have "card (set [[CHR ''a'', CHR 0x00], ''a'']) = 2"
    by simp
  ultimately show ?thesis
    by (intro conjI)
qed

text \<open>
  Claim C4. Tokenizing \<open>Quo usque tandem abutere, Catilina?\<close> yields the five tokens
  \<open>quo usque tandem abutere catilina\<close>, and the vocabulary built from them maps
  \<open>abutere\<close> to 0, \<open>catilina\<close> to 1, \<open>quo\<close> to 2, \<open>tandem\<close> to 3 and
  \<open>usque\<close> to 4.
\<close>

theorem catilina_example:
  "tokenize ''Quo usque tandem abutere, Catilina?''
     = [''quo'', ''usque'', ''tandem'', ''abutere'', ''catilina'']
   \<and> vocab_of (tokenize ''Quo usque tandem abutere, Catilina?'')
     = [''abutere'' \<mapsto> 0, ''catilina'' \<mapsto> 1, ''quo'' \<mapsto> 2, ''tandem'' \<mapsto> 3, ''usque'' \<mapsto> 4]"
proof -
  have t: "tokenize ''Quo usque tandem abutere, Catilina?''
     = [''quo'', ''usque'', ''tandem'', ''abutere'', ''catilina'']"
    by code_simp
  have u: "unique [''quo'', ''usque'', ''tandem'', ''abutere'', ''catilina'']
     = [''abutere'', ''catilina'', ''quo'', ''tandem'', ''usque'']"
    by code_simp
  have "vocab_of [''quo'', ''usque'', ''tandem'', ''abutere'', ''catilina'']
     = [''abutere'' \<mapsto> 0, ''catilina'' \<mapsto> 1, ''quo'' \<mapsto> 2, ''tandem'' \<mapsto> 3, ''usque'' \<mapsto> 4]"
    by (simp add: vocab_of_def u enumerate_eq_zip upt_rec eval_nat_numeral)
  with t show ?thesis
    by simp
qed

section \<open>Table construction and lookup\<close>

lemma row_valid: "0 \<le> i \<Longrightarrow> i < int (length t) \<Longrightarrow> row t i = Inr (t ! nat i)"
  by (simp add: row_def)

lemma row_invalid: "i < 0 \<or> int (length t) \<le> i \<Longrightarrow> row t i = Inl IndexOutOfRange"
  by (auto simp: row_def)

lemma embedding_lookup_valid:
  "\<forall>i \<in> set ids. 0 \<le> i \<and> i < int (length t) \<Longrightarrow>
     embedding_lookup t ids = Inr (map (\<lambda>i. t ! nat i) ids)"
  by (induction ids) (simp_all add: row_valid)

lemma embedding_lookup_error:
  "embedding_lookup t ids = Inl e \<Longrightarrow> e = IndexOutOfRange"
  by (induction ids) (auto simp: row_def split: if_splits sum.splits)

lemma embedding_lookup_invalid:
  "\<exists>i \<in> set ids. i < 0 \<or> int (length t) \<le> i \<Longrightarrow> embedding_lookup t ids = Inl IndexOutOfRange"
proof (induction ids)
  case Nil
  then show ?case by simp
next
  case (Cons i ids)
  show ?case
  proof (cases "row t i")
    case (Inl e)
    then have "e = IndexOutOfRange"
      by (auto simp: row_def split: if_splits)
    with Inl show ?thesis by simp
  next
    case (Inr r)
    then have "\<not> (i < 0 \<or> int (length t) \<le> i)"
      by (auto simp: row_def split: if_splits)
    with Cons.prems have "\<exists>i \<in> set ids. i < 0 \<or> int (length t) \<le> i"
      by auto
    then have "embedding_lookup t ids = Inl IndexOutOfRange"
      by (rule Cons.IH)
    with Inr show ?thesis by simp
  qed
qed

lemma random_uniform_ok:
  "0 \<le> V \<Longrightarrow> 0 \<le> D \<Longrightarrow>
     random_uniform U V D = Inr (map (\<lambda>i. map (U i) [0..<nat D]) [0..<nat V])"
  by (simp add: random_uniform_def)

lemma Embedding_init_ok:
  "0 \<le> V \<Longrightarrow> 0 \<le> D \<Longrightarrow>
     Embedding_init U V D
       = Inr \<lparr>vocab_size = V, emd_dim = D,
              embeddings = map (\<lambda>i. map (U i) [0..<nat D]) [0..<nat V]\<rparr>"
  by (simp add: Embedding_init_def random_uniform_ok)

lemma Embedding_init_fails:
  "V < 0 \<or> D < 0 \<Longrightarrow> Embedding_init U V D = Inl InvalidDimension"
  by (auto simp: Embedding_init_def random_uniform_def)

text \<open>
  Claim C3. For every sequence of ids that are all valid for the table, the lookup
  returns a sequence as long as the input whose \<open>k\<close>-th element is \<open>row\<close> of the
  \<open>k\<close>-th id: the order of the ids and their repetitions are kept, so an id that occurs
  twice gets the same row twice.
\<close>

theorem embedding_lookup_rows:
  assumes "\<forall>i \<in> set ids. 0 \<le> i \<and> i < int (length t)"
  shows "\<exists>out. embedding_lookup t ids = Inr out
           \<and> length out = length ids
           \<and> (\<forall>k < length ids. row t (ids ! k) = Inr (out ! k))"
proof -
  have "row t (ids ! k) = Inr (map (\<lambda>i. t ! nat i) ids ! k)" if "k < length ids" for k
  proof -
    from that have "ids ! k \<in> set ids" by simp
    with assms have "0 \<le> ids ! k" "ids ! k < int (length t)" by auto
    then show ?thesis using that by (simp add: row_valid)
  qed
  then show ?thesis
    using embedding_lookup_valid [OF assms] by simp
qed

theorem embedding_lookup_rows_witness:
  "\<exists>out. embedding_lookup [[1, 2], [3, 4], [5, 6::nat]] [2, 0, 2] = Inr out
      \<and> length out = 3
      \<and> row [[1, 2], [3, 4], [5, 6::nat]] 2 = Inr (out ! 0)
      \<and> row [[1, 2], [3, 4], [5, 6::nat]] 0 = Inr (out ! 1)
      \<and> row [[1, 2], [3, 4], [5, 6::nat]] 2 = Inr (out ! 2)"
proof -
  have "\<forall>i \<in> set [2, 0, 2::int]. 0 \<le> i \<and> i < int (length [[1, 2], [3, 4], [5, 6::nat]])"
    by simp
  from embedding_lookup_rows [OF this] obtain out where
    o: "embedding_lookup [[1, 2], [3, 4], [5, 6::nat]] [2, 0, 2] = Inr out"
       "length out = length [2, 0, 2::int]"
       "\<forall>k < length [2, 0, 2::int]. row [[1, 2], [3, 4], [5, 6::nat]] ([2, 0, 2] ! k) = Inr (out ! k)"
    by blast
  from o(3) [rule_format, of 0] o(3) [rule_format, of 1] o(3) [rule_format, of 2]
  have "row [[1, 2], [3, 4], [5, 6::nat]] 2 = Inr (out ! 0)"
       "row [[1, 2], [3, 4], [5, 6::nat]] 0 = Inr (out ! 1)"
       "row [[1, 2], [3, 4], [5, 6::nat]] 2 = Inr (out ! 2)"
    by simp_all
  with o(1) o(2) show ?thesis by simp
qed

lemma row_of_fresh_table:
  assumes "0 \<le> i" "i < V"
  shows "row (map (\<lambda>i. map (U i) [0..<nat D]) [0..<nat V]) i = Inr (map (U (nat i)) [0..<nat D])"
proof -
  from assms have "nat i < nat V" by simp
  then show ?thesis
    using assms by (simp add: row_def)
qed

text \<open>
  Claim C7. Right after the construction of a table of dimension \<open>D\<close>, \<open>row(i)\<close> for a
  valid id \<open>i\<close> is a vector of length \<open>D\<close>, and when the draws of the initialization
  lie in \<open>[0, 1)\<close>, as those of the uniform policy do, so does every value of the vector.
\<close>

theorem row_after_construction:
  assumes "\<forall>i j. 0 \<le> U i j \<and> U i j < (1::real)"
    and "0 < D" and "0 \<le> i" and "i < V"
  shows "\<exists>e v. Embedding_init U V D = Inr e
           \<and> row (embeddings e) i = Inr v
           \<and> int (length v) = D
           \<and> (\<forall>x \<in> set v. 0 \<le> x \<and> x < 1)"
proof -
  from assms have V: "0 \<le> V" and D: "0 \<le> D" by simp_all
  let ?v = "map (U (nat i)) [0..<nat D]"
  have "row (embeddings \<lparr>vocab_size = V, emd_dim = D,
              embeddings = map (\<lambda>i. map (U i) [0..<nat D]) [0..<nat V]\<rparr>) i = Inr ?v"
    using assms(3,4) by (simp add: row_of_fresh_table)
  moreover have "int (length ?v) = D"
    using assms(2) by simp
  moreover have "\<forall>x \<in> set ?v. 0 \<le> x \<and> x < 1"
    using assms(1) by auto
  ultimately show ?thesis
    using Embedding_init_ok [OF V D, of U] by blast
qed

theorem row_after_construction_witness:
  "\<exists>e v. Embedding_init (\<lambda>i j. 1 / (2 + real i + real j)) 21 50 = Inr e
      \<and> row (embeddings e) 13 = Inr v
      \<and> int (length v) = 50
      \<and> hd v = 1 / 15"
proof -
  let ?U = "\<lambda>i j. 1 / (2 + real i + real j)"
  have u: "\<forall>i j. 0 \<le> ?U i j \<and> ?U i j < (1::real)"
    by (simp add: field_simps)
  obtain e v where
    e: "Embedding_init ?U 21 50 = Inr e" "row (embeddings e) 13 = Inr v" "int (length v) = 50"
    using row_after_construction [OF u, of 50 13 21] by auto
  have "Embedding_init ?U 21 50
      = Inr \<lparr>vocab_size = 21, emd_dim = 50,
              embeddings = map (\<lambda>i. map (?U i) [0..<nat 50]) [0..<nat 21]\<rparr>"
    by (rule Embedding_init_ok) simp_all
  with e(1) have "embeddings e = map (\<lambda>i. map (?U i) [0..<nat 50]) [0..<nat 21]"
    by auto
  with e(2) have "v = map (?U (nat 13)) [0..<nat 50]"
    using row_of_fresh_table [of 13 21 ?U 50] by simp
  then have "hd v = 1 / 15"
    by (simp add: hd_map upt_rec [of 0])
  with e show ?thesis by blast
qed

text \<open>
  Claim C8, as amended. The construction fails with \<open>InvalidDimension\<close> whenever
  \<open>V < 0\<close> or \<open>D < 0\<close>; for \<open>V \<ge> 0\<close> and \<open>D \<ge> 0\<close> it succeeds, and the
  instance holds a matrix of \<open>V\<close> rows of \<open>D\<close> values each, which has no rows for
  \<open>V = 0\<close> and empty rows for \<open>D = 0\<close>. \<open>__init__\<close> has no check of its own: the
  failure is that of the shape in the framework.
\<close>

theorem Embedding_init_dimensions:
  "(V < 0 \<or> D < 0 \<longrightarrow> Embedding_init U V D = Inl InvalidDimension)
   \<and> (0 \<le> V \<and> 0 \<le> D \<longrightarrow>
        (\<exists>e. Embedding_init U V D = Inr e
           \<and> vocab_size e = V \<and> emd_dim e = D
           \<and> int (length (embeddings e)) = V
           \<and> (\<forall>r \<in> set (embeddings e). int (length r) = D)))"
proof (intro conjI impI)
  assume "V < 0 \<or> D < 0"
  then show "Embedding_init U V D = Inl InvalidDimension"
    by (rule Embedding_init_fails)
next
  assume "0 \<le> V \<and> 0 \<le> D"
  then have V: "0 \<le> V" and D: "0 \<le> D" by simp_all
  show "\<exists>e. Embedding_init U V D = Inr e
           \<and> vocab_size e = V \<and> emd_dim e = D
           \<and> int (length (embeddings e)) = V
           \<and> (\<forall>r \<in> set (embeddings e). int (length r) = D)"
    using V D by (simp add: Embedding_init_ok)
qed

theorem Embedding_init_dimensions_witness:
  "Embedding_init (\<lambda>i j. 0::real) (- 1) 50 = Inl InvalidDimension
   \<and> Embedding_init (\<lambda>i j. 0::real) 21 (- 1) = Inl InvalidDimension
   \<and> (\<exists>e. Embedding_init (\<lambda>i j. 0::real) 21 50 = Inr e
          \<and> vocab_size e = 21 \<and> emd_dim e = 50
          \<and> int (length (embeddings e)) = 21
          \<and> int (length (hd (embeddings e))) = 50)
   \<and> (\<exists>e. Embedding_init (\<lambda>i j. 0::real) 21 0 = Inr e
          \<and> int (length (embeddings e)) = 21
          \<and> hd (embeddings e) = [])"
proof -
  let ?U = "\<lambda>(i::nat) (j::nat). 0::real"
  have a: "Embedding_init ?U (- 1) 50 = Inl InvalidDimension"
    using Embedding_init_dimensions [of "- 1" 50 ?U] by simp
  have b: "Embedding_init ?U 21 (- 1) = Inl InvalidDimension"
    using Embedding_init_dimensions [of 21 "- 1" ?U] by simp
  obtain e where e: "Embedding_init ?U 21 50 = Inr e" "vocab_size e = 21" "emd_dim e = 50"
      "int (length (embeddings e)) = 21" "\<forall>r \<in> set (embeddings e). int (length r) = 50"
    using Embedding_init_dimensions [of 21 50 ?U] by auto
  from e(4) have "embeddings e \<noteq> []" by auto
  then have "hd (embeddings e) \<in> set (embeddings e)" by simp
  with e(5) have "int (length (hd (embeddings e))) = 50" by blast
  with e have c: "\<exists>e. Embedding_init ?U 21 50 = Inr e
          \<and> vocab_size e = 21 \<and> emd_dim e = 50
          \<and> int (length (embeddings e)) = 21
          \<and> int (length (hd (embeddings e))) = 50"
    by blast
  obtain f where f: "Embedding_init ?U 21 0 = Inr f"
      "int (length (embeddings f)) = 21" "\<forall>r \<in> set (embeddings f). int (length r) = 0"
    using Embedding_init_dimensions [of 21 0 ?U] by auto
  from f(2) have "embeddings f \<noteq> []" by auto
  then have "hd (embeddings f) \<in> set (embeddings f)" by simp
  with f(3) have "hd (embeddings f) = []" by auto
  with f have d: "\<exists>e. Embedding_init ?U 21 0 = Inr e
          \<and> int (length (embeddings e)) = 21 \<and> hd (embeddings e) = []"
    by blast
  from a b c d show ?thesis
    by (intro conjI)
qed

text \<open>
  The claim as it was written fails at an extent of 0: the construction with
  \<open>V = 0\<close> and \<open>D = 50\<close> returns an instance, whose table has no rows.
\<close>

theorem Embedding_init_zero_rows:
  "Embedding_init (\<lambda>i j. 0::real) 0 50
     = Inr \<lparr>vocab_size = 0, emd_dim = 50, embeddings = []\<rparr>"
  by (simp add: Embedding_init_def random_uniform_def)

section \<open>The custom module: what a call looks up\<close>

text \<open>
  Claim C5, at the custom module. The id 100 is out of range for a table of 21 rows:
  \<open>row\<close> and the lookup of \<open>[100]\<close> fail with \<open>IndexOutOfRange\<close>. Calling the
  \<open>Embedding\<close> instance with \<open>[100]\<close> does not fail: \<open>__call__\<close> looks up the
  module's \<open>words_ids\<close>, here \<open>[0, 13]\<close>, and returns the rows 0 and 13.
\<close>

theorem Embedding_call_out_of_range_argument:
  "\<exists>e. Embedding_init U 21 50 = Inr e
      \<and> row (embeddings e) 100 = Inl IndexOutOfRange
      \<and> embedding_lookup (embeddings e) [100] = Inl IndexOutOfRange
      \<and> Embedding_call (m\<lparr>words_ids := [0, 13]\<rparr>) e [100]
          = Inr [map (U 0) [0..<50], map (U 13) [0..<50]]"
proof -
  let ?t = "map (\<lambda>i. map (U i) [0..<nat 50]) [0..<nat 21]"
  let ?e = "\<lparr>vocab_size = 21, emd_dim = 50, embeddings = ?t\<rparr>"
  have e: "Embedding_init U 21 50 = Inr ?e"
    by (rule Embedding_init_ok) simp_all
  have r: "row ?t 100 = Inl IndexOutOfRange"
    by (rule row_invalid) simp
  have l: "embedding_lookup ?t [100] = Inl IndexOutOfRange"
    by (rule embedding_lookup_invalid) simp
  have "embedding_lookup ?t [0, 13] = Inr (map (\<lambda>i. ?t ! nat i) [0, 13])"
    by (rule embedding_lookup_valid) simp
  then have c: "Embedding_call (m\<lparr>words_ids := [0, 13]\<rparr>) ?e [100]
          = Inr [map (U 0) [0..<50], map (U 13) [0..<50]]"
    by (simp add: Embedding_call_def)
  from e r l c show ?thesis
    by auto
qed

text \<open>
  Claim C9, as amended. \<open>Embedding.__call__\<close> ignores its argument: what it returns is
  the lookup of the module's \<open>words_ids\<close> in the table of the instance, so any two
  arguments give the same result. The cell that uses the class calls the module's
  \<open>embeddings\<close>, the layer object of the Keras cell, and not the new instance: for all
  arguments of the constructor that it accepts, \<open>V \<ge> 0\<close> and \<open>D \<ge> 0\<close>, and for all
  values it draws, what the cell prints is that layer applied to \<open>words_ids\<close>. With a
  negative argument the constructor raises, and the cell ends before it prints.
\<close>

theorem Embedding_demo_ignores_inputs:
  "Embedding_call m self a = embedding_lookup (embeddings self) (words_ids m)
   \<and> Embedding_call m self a = Embedding_call m self b
   \<and> (0 \<le> V \<and> 0 \<le> D \<longrightarrow> demo_output U V D m = embeddings_g m (words_ids m))
   \<and> (0 \<le> V \<and> 0 \<le> D \<and> 0 \<le> V' \<and> 0 \<le> D' \<longrightarrow>
        demo_output U V D m = demo_output U' V' D' m)
   \<and> (V < 0 \<or> D < 0 \<longrightarrow> demo_output U V D m = Inl InvalidDimension)"
proof (intro conjI impI)
  show "Embedding_call m self a = embedding_lookup (embeddings self) (words_ids m)"
    by (simp add: Embedding_call_def)
  show "Embedding_call m self a = Embedding_call m self b"
    by (simp add: Embedding_call_def)
  have ok: "demo_output U V D m = embeddings_g m (words_ids m)" if "0 \<le> V" "0 \<le> D"
    for U :: "nat \<Rightarrow> nat \<Rightarrow> 'a" and V D
    using that by (simp add: demo_output_def demo_cell_def Embedding_init_ok)
  show "demo_output U V D m = embeddings_g m (words_ids m)" if "0 \<le> V \<and> 0 \<le> D"
    using that by (simp add: ok)
  show "demo_output U V D m = demo_output U' V' D' m"
    if "0 \<le> V \<and> 0 \<le> D \<and> 0 \<le> V' \<and> 0 \<le> D'"
    using that by (simp add: ok)
  show "demo_output U V D m = Inl InvalidDimension" if "V < 0 \<or> D < 0"
    using that by (simp add: demo_output_def demo_cell_def Embedding_init_fails)
qed

theorem Embedding_demo_ignores_inputs_witness:
  "Embedding_call
       \<lparr>words_ids = [1, 0], embeddings_g = (\<lambda>ids. Inr [map real_of_int ids]),
        embedding = None, embed = Inr []\<rparr>
       \<lparr>vocab_size = 2, emd_dim = 1, embeddings = [[5], [7]]\<rparr> [0, 0]
     = Inr [[7], [5]]
   \<and> Embedding_call
       \<lparr>words_ids = [1, 0], embeddings_g = (\<lambda>ids. Inr [map real_of_int ids]),
        embedding = None, embed = Inr []\<rparr>
       \<lparr>vocab_size = 2, emd_dim = 1, embeddings = [[5], [7]]\<rparr> [1]
     = Inr [[7], [5]]
   \<and> demo_output (\<lambda>i j. 0) 21 50
       \<lparr>words_ids = [1, 0], embeddings_g = (\<lambda>ids. Inr [map real_of_int ids]),
        embedding = None, embed = Inr []\<rparr>
     = Inr [[1, 0]]
   \<and> demo_output (\<lambda>i j. 1) 0 2
       \<lparr>words_ids = [1, 0], embeddings_g = (\<lambda>ids. Inr [map real_of_int ids]),
        embedding = None, embed = Inr []\<rparr>
     = Inr [[1, 0]]
   \<and> demo_output (\<lambda>i j. 0) 21 (- 1)
       \<lparr>words_ids = [1, 0], embeddings_g = (\<lambda>ids. Inr [map real_of_int ids]),
        embedding = None, embed = Inr []\<rparr>
     = Inl InvalidDimension"
proof -
  let ?M = "\<lparr>words_ids = [1, 0], embeddings_g = (\<lambda>ids. Inr [map real_of_int ids]),
        embedding = None, embed = Inr ([] :: real table)\<rparr>"
  let ?E = "\<lparr>vocab_size = 2, emd_dim = 1, embeddings = [[5], [7::real]]\<rparr>"
  let ?U0 = "\<lambda>(i::nat) (j::nat). 0::real"
  let ?U1 = "\<lambda>(i::nat) (j::nat). 1::real"
  have l: "embedding_lookup [[5], [7::real]] [1, 0] = Inr [[7], [5]]"
    by (simp add: row_def)
  have c0: "Embedding_call ?M ?E [0, 0] = Inr [[7], [5]]"
    using Embedding_demo_ignores_inputs [of ?M ?E "[0, 0]" "[1]" 21 50 ?U0 0 2 ?U1] l by simp
  have c1: "Embedding_call ?M ?E [1] = Inr [[7], [5]]"
    using Embedding_demo_ignores_inputs [of ?M ?E "[1]" "[1]" 21 50 ?U0 0 2 ?U1] l by simp
  have d0: "demo_output ?U0 21 50 ?M = Inr [[1, 0]]"
    using Embedding_demo_ignores_inputs [of ?M ?E "[1]" "[1]" 21 50 ?U0 0 2 ?U1] by simp
  have d1: "demo_output ?U1 0 2 ?M = Inr [[1, 0]]"
    using Embedding_demo_ignores_inputs [of ?M ?E "[1]" "[1]" 0 2 ?U1 21 50 ?U0] by simp
  have d2: "demo_output ?U0 21 (- 1) ?M = Inl InvalidDimension"
    using Embedding_demo_ignores_inputs [of ?M ?E "[1]" "[1]" 21 "- 1" ?U0 0 2 ?U1] by simp
  from c0 c1 d0 d1 d2 show ?thesis
    by (intro conjI)
qed

text \<open>
  The claim as it was written, for any arguments of the constructor, fails at a negative
  one: with \<open>D = - 1\<close> the cell ends with the error of the constructor, with \<open>D = 50\<close>
  it prints the rows of the layer.
\<close>

theorem demo_output_negative_dimension:
  "demo_output (\<lambda>i j. 0) 21 (- 1)
       \<lparr>words_ids = [1, 0], embeddings_g = (\<lambda>ids. Inr [map real_of_int ids]),
        embedding = None, embed = Inr []\<rparr>
     \<noteq> demo_output (\<lambda>i j. 0) 21 50
       \<lparr>words_ids = [1, 0], embeddings_g = (\<lambda>ids. Inr [map real_of_int ids]),
        embedding = None, embed = Inr []\<rparr>"
  by (simp add: demo_output_def demo_cell_def Embedding_init_def random_uniform_def)


end
